theory Spec2Isabelle
  imports Main "HOL-Library.Sublist" "HOL-Library.Multiset"
begin

section \<open>Strings of the Go runtime\<close>

text \<open>
  A Go \<^verbatim>\<open>string\<close> is a sequence of bytes; \<^typ>\<open>string\<close> (a list of 8-bit
  characters) is the same thing. Text outside ASCII is written as its UTF-8 bytes.
  The functions of package \<^verbatim>\<open>strings\<close> that \<^verbatim>\<open>main.go\<close> calls are modelled on
  bytes, as the library implements them.
\<close>

definition nl :: string where
  "nl = [CHR 0x0A]"

text \<open>\<^verbatim>\<open>strings.HasPrefix(s, prefix)\<close>\<close>

fun HasPrefix :: "string \<Rightarrow> string \<Rightarrow> bool" where
  "HasPrefix s [] = True"
| "HasPrefix [] (p # ps) = False"
| "HasPrefix (c # cs) (p # ps) = (c = p \<and> HasPrefix cs ps)"

text \<open>\<^verbatim>\<open>strings.Contains(s, substr)\<close>: \<^verbatim>\<open>substr\<close> occurs at some index of \<^verbatim>\<open>s\<close>.\<close>

fun Contains :: "string \<Rightarrow> string \<Rightarrow> bool" where
  "Contains [] sub = HasPrefix [] sub"
| "Contains (c # cs) sub = (HasPrefix (c # cs) sub \<or> Contains cs sub)"

text \<open>
  \<^verbatim>\<open>strings.ReplaceAll(s, old, new)\<close> for a non-empty \<^verbatim>\<open>old\<close>: the
  non-overlapping occurrences of \<^verbatim>\<open>old\<close> are replaced from left to right. (With an
  empty \<^verbatim>\<open>old\<close> the library inserts \<^verbatim>\<open>new\<close> at every rune boundary; \<^verbatim>\<open>main.go\<close>
  never passes one, and the model has no equation for it.)
\<close>

fun ReplaceAll :: "string \<Rightarrow> string \<Rightarrow> string \<Rightarrow> string" where
  "ReplaceAll [] (p # ps) new = []"
| "ReplaceAll (c # cs) (p # ps) new =
     (if HasPrefix (c # cs) (p # ps)
      then new @ ReplaceAll (drop (length ps) cs) (p # ps) new
      else c # ReplaceAll cs (p # ps) new)"

text \<open>
  \<^verbatim>\<open>strings.Split(s, sep)\<close> for a non-empty \<^verbatim>\<open>sep\<close>: the fields between the
  non-overlapping occurrences of \<^verbatim>\<open>sep\<close>, found from left to right; always at least
  one field. \<open>splitFrom field s sep\<close> carries the bytes of the field being read.
\<close>

fun splitFrom :: "string \<Rightarrow> string \<Rightarrow> string \<Rightarrow> string list" where
  "splitFrom field [] (p # ps) = [field]"
| "splitFrom field (c # cs) (p # ps) =
     (if HasPrefix (c # cs) (p # ps)
      then field # splitFrom [] (drop (length ps) cs) (p # ps)
      else splitFrom (field @ [c]) cs (p # ps))"

definition Split :: "string \<Rightarrow> string \<Rightarrow> string list" where
  "Split s sep = splitFrom [] s sep"

text \<open>
  \<^verbatim>\<open>strings.TrimSpace(s)\<close> removes the leading and the trailing white space, as
  \<^verbatim>\<open>unicode.IsSpace\<close> defines it, rune by rune. The white-space runes are listed by
  their UTF-8 encodings: the six ASCII ones, U+0085, U+00A0, U+1680, U+2000 to U+200A,
  U+2028, U+2029, U+202F, U+205F and U+3000. A rune is decoded at the front of the
  string exactly when its encoding is a prefix, and at the back exactly when its
  encoding is a suffix.
\<close>

definition unicodeSpaces :: "string list" where
  "unicodeSpaces =
    [[CHR 0x09], [CHR 0x0A], [CHR 0x0B], [CHR 0x0C], [CHR 0x0D], [CHR 0x20],
     [CHR 0xC2, CHR 0x85], [CHR 0xC2, CHR 0xA0],
     [CHR 0xE1, CHR 0x9A, CHR 0x80],
     [CHR 0xE2, CHR 0x80, CHR 0x80], [CHR 0xE2, CHR 0x80, CHR 0x81],
     [CHR 0xE2, CHR 0x80, CHR 0x82], [CHR 0xE2, CHR 0x80, CHR 0x83],
     [CHR 0xE2, CHR 0x80, CHR 0x84], [CHR 0xE2, CHR 0x80, CHR 0x85],
     [CHR 0xE2, CHR 0x80, CHR 0x86], [CHR 0xE2, CHR 0x80, CHR 0x87],
     [CHR 0xE2, CHR 0x80, CHR 0x88], [CHR 0xE2, CHR 0x80, CHR 0x89],
     [CHR 0xE2, CHR 0x80, CHR 0x8A],
     [CHR 0xE2, CHR 0x80, CHR 0xA8], [CHR 0xE2, CHR 0x80, CHR 0xA9],
     [CHR 0xE2, CHR 0x80, CHR 0xAF],
     [CHR 0xE2, CHR 0x81, CHR 0x9F],
     [CHR 0xE3, CHR 0x80, CHR 0x80]]"

text \<open>The number of bytes of the first of \<open>rs\<close> that \<open>s\<close> starts with; 0 when none.\<close>

fun leadingLen :: "string list \<Rightarrow> string \<Rightarrow> nat" where
  "leadingLen [] s = 0"
| "leadingLen (r # rs) s = (if HasPrefix s r then length r else leadingLen rs s)"

lemma HasPrefix_length: "HasPrefix s p \<Longrightarrow> length p \<le> length s"
  by (induction s p rule: HasPrefix.induct) auto

lemma leadingLen_le: "leadingLen rs s \<le> length s"
  by (induction rs) (auto dest: HasPrefix_length)

function stripLeading :: "string list \<Rightarrow> string \<Rightarrow> string" where
  "stripLeading rs s =
     (case leadingLen rs s of 0 \<Rightarrow> s | Suc k \<Rightarrow> stripLeading rs (drop (Suc k) s))"
  by pat_completeness auto
termination
proof (relation "measure (\<lambda>(rs, s). length s)")
  show "wf (measure (\<lambda>(rs, s). length s))" by simp
next
  fix rs :: "string list" and s :: string and k :: nat
  assume "leadingLen rs s = Suc k"
  with leadingLen_le [of rs s] have "Suc k \<le> length s" by simp
  then have "s \<noteq> []" by auto
  then show "((rs, drop (Suc k) s), (rs, s)) \<in> measure (\<lambda>(rs, s). length s)"
    by simp
qed

definition TrimLeftSpace :: "string \<Rightarrow> string" where
  "TrimLeftSpace s = stripLeading unicodeSpaces s"

definition TrimRightSpace :: "string \<Rightarrow> string" where
  "TrimRightSpace s = rev (stripLeading (map rev unicodeSpaces) (rev s))"

definition TrimSpace :: "string \<Rightarrow> string" where
  "TrimSpace s = TrimRightSpace (TrimLeftSpace s)"

section \<open>The prize-text extractor\<close>

text \<open>
  \<^verbatim>\<open>map[string][]string\<close>: a finite map from location label to prize lines. A Go map
  has no order of its keys.
\<close>

type_synonym PrizeTable = "string \<rightharpoonup> string list"

text \<open>The three \<^verbatim>\<open>ReplaceAll\<close> calls at the top of \<^verbatim>\<open>parseDescription\<close>.\<close>

definition replaceBreaks :: "string \<Rightarrow> string" where
  "replaceBreaks desc =
     ReplaceAll (ReplaceAll (ReplaceAll desc ''<br>'' nl) ''<br/>'' nl) ''<br />'' nl"

text \<open>The two tests of the loop body, on a trimmed line.\<close>

definition isLocation :: "string \<Rightarrow> bool" where
  "isLocation line \<longleftrightarrow> HasPrefix line ''['' \<and> Contains line '']''"

definition isPrize :: "string \<Rightarrow> bool" where
  "isPrize line \<longleftrightarrow> HasPrefix line ''G.''"

text \<open>
  \<^verbatim>\<open>results[currentLocation] = append(results[currentLocation], line)\<close>: a missing
  key reads as the nil slice.
\<close>

definition appendPrize :: "PrizeTable \<Rightarrow> string \<Rightarrow> string \<Rightarrow> PrizeTable" where
  "appendPrize results currentLocation line =
     results(currentLocation \<mapsto>
       (case results currentLocation of None \<Rightarrow> [] | Some ps \<Rightarrow> ps) @ [line])"

text \<open>
  The loop \<^verbatim>\<open>for _, line := range lines\<close>, with its two variables \<^verbatim>\<open>results\<close> and
  \<^verbatim>\<open>currentLocation\<close> as arguments.
\<close>

fun parseLines :: "string list \<Rightarrow> PrizeTable \<Rightarrow> string \<Rightarrow> PrizeTable" where
  "parseLines [] results currentLocation = results"
| "parseLines (l # ls) results currentLocation =
     (let line = TrimSpace l in
      if line = [] then parseLines ls results currentLocation
      else if isLocation line then parseLines ls results line
      else if isPrize line
        then parseLines ls (appendPrize results currentLocation line) currentLocation
      else parseLines ls results currentLocation)"

text \<open>The local variable \<^verbatim>\<open>lines\<close>: the text after the replacements, split at newlines.\<close>

definition splitLines :: "string \<Rightarrow> string list" where
  "splitLines desc = Split (replaceBreaks desc) nl"

definition parseDescription :: "string \<Rightarrow> PrizeTable" where
  "parseDescription desc = parseLines (splitLines desc) Map.empty []"

text \<open>
  \<^verbatim>\<open>for k, v := range m\<close> over a Go map visits every entry once, in an order the
  language leaves unspecified and the runtime varies from one execution of the loop to
  the next. A loop over a map is modelled with the order of the visit as an argument;
  \<open>rangeOrder m ks\<close> says that \<open>ks\<close> is one of the orders the runtime may choose.
\<close>

definition rangeOrder :: "('k \<rightharpoonup> 'v) \<Rightarrow> 'k list \<Rightarrow> bool" where
  "rangeOrder m ks \<longleftrightarrow> distinct ks \<and> set ks = dom m"

section \<open>Feeds and the network\<close>

text \<open>The struct \<^verbatim>\<open>RSS\<close> with its anonymous inner structs.\<close>

record Item =
  Title :: string
  Description :: string
  PubDate :: string

record Channel =
  Items :: "Item list"

record RSS =
  Channel :: Channel

text \<open>A Go \<^verbatim>\<open>error\<close> value, and a result that is either an error or a value.\<close>

datatype error = Error string

text \<open>
  An HTTP response: its status code, and what \<^verbatim>\<open>io.ReadAll(resp.Body)\<close> returns for
  its body.
\<close>

record Response =
  StatusCode :: nat
  Body :: "error + string"

text \<open>
  What lies outside the process: the answers of \<^verbatim>\<open>http.Get\<close> and \<^verbatim>\<open>http.Post\<close>
  (an error when the request itself fails, a response otherwise), and the decoder
  \<^verbatim>\<open>xml.Unmarshal\<close>. Every call is taken to return; the source sets no timeout.
\<close>

record Net =
  http_Get :: "string \<Rightarrow> error + Response"
  http_Post :: "string \<Rightarrow> string \<Rightarrow> string \<Rightarrow> error + Response"
  xml_Unmarshal :: "string \<Rightarrow> error + RSS"

text \<open>The requests a run sends, in order. Console output is not modelled.\<close>

datatype Call = HttpGet string | HttpPost string string string

fun isPost :: "Call \<Rightarrow> bool" where
  "isPost (HttpPost url contentType body) = True"
| "isPost (HttpGet url) = False"

text \<open>The three keys of \<^verbatim>\<open>rssURLs\<close>, as UTF-8 bytes, and the map itself.\<close>

definition mienBac :: string where
  "mienBac = [CHR 0x4D, CHR 0x69, CHR 0xE1, CHR 0xBB, CHR 0x81, CHR 0x6E, CHR 0x20,
              CHR 0x42, CHR 0xE1, CHR 0xBA, CHR 0xAF, CHR 0x63]"

definition mienTrung :: string where
  "mienTrung = [CHR 0x4D, CHR 0x69, CHR 0xE1, CHR 0xBB, CHR 0x81, CHR 0x6E, CHR 0x20,
                CHR 0x54, CHR 0x72, CHR 0x75, CHR 0x6E, CHR 0x67]"

definition mienNam :: string where
  "mienNam = [CHR 0x4D, CHR 0x69, CHR 0xE1, CHR 0xBB, CHR 0x81, CHR 0x6E, CHR 0x20,
              CHR 0x4E, CHR 0x61, CHR 0x6D]"

definition rssURLs :: "string \<rightharpoonup> string" where
  "rssURLs =
     [mienBac \<mapsto> ''https://xosodaiphat.com/ket-qua-xo-so-mien-bac-xsmb.rss'',
      mienTrung \<mapsto> ''https://xosodaiphat.com/ket-qua-xo-so-mien-trung-xsmt.rss'',
      mienNam \<mapsto> ''https://xosodaiphat.com/ket-qua-xo-so-mien-nam-xsmn.rss'']"

text \<open>The globals \<^verbatim>\<open>telegramBotToken\<close> and \<^verbatim>\<open>telegramChatID\<close>, set once by \<^verbatim>\<open>init\<close>.\<close>

record Config =
  telegramBotToken :: string
  telegramChatID :: string

definition fetchRSS :: "Net \<Rightarrow> string \<Rightarrow> error + RSS" where
  "fetchRSS net url =
     (case http_Get net url of
        Inl err \<Rightarrow> Inl err
      | Inr resp \<Rightarrow>
          (case Body resp of
             Inl err \<Rightarrow> Inl err
           | Inr data \<Rightarrow>
               (case xml_Unmarshal net data of
                  Inl err \<Rightarrow> Inl err
                | Inr rss \<Rightarrow> Inr rss)))"

section \<open>The notifier\<close>

definition telegramURL :: "Config \<Rightarrow> string" where
  "telegramURL cfg = ''https://api.telegram.org/bot'' @ telegramBotToken cfg @ ''/sendMessage''"

definition telegramPayload :: "Config \<Rightarrow> string \<Rightarrow> string" where
  "telegramPayload cfg message = ''chat_id='' @ telegramChatID cfg @ ''&text='' @ message"

text \<open>
  \<^verbatim>\<open>sendToTelegram\<close>: the returned error (\<open>None\<close> is \<^verbatim>\<open>nil\<close>), and the calls made so
  far with the POST added.
\<close>

definition sendToTelegram ::
    "Config \<Rightarrow> Net \<Rightarrow> string \<Rightarrow> Call list \<Rightarrow> error option \<times> Call list" where
  "sendToTelegram cfg net message calls =
     (let url = telegramURL cfg;
          payload = telegramPayload cfg message;
          calls' = calls @ [HttpPost url ''application/x-www-form-urlencoded'' payload]
      in case http_Post net url ''application/x-www-form-urlencoded'' payload of
           Inl err \<Rightarrow> (Some err, calls')
         | Inr resp \<Rightarrow> (None, calls'))"

section \<open>The job\<close>

text \<open>The first string written to \<^verbatim>\<open>finalMessage\<close>, as UTF-8 bytes.\<close>

definition messageHeader :: string where
  "messageHeader =
     [CHR 0xF0, CHR 0x9F, CHR 0x8E, CHR 0xB0, CHR 0x20, CHR 0x2A, CHR 0x4B, CHR 0xE1,
      CHR 0xBA, CHR 0xBF, CHR 0x74, CHR 0x20, CHR 0x71, CHR 0x75, CHR 0xE1, CHR 0xBA,
      CHR 0xA3, CHR 0x20, CHR 0x78, CHR 0xE1, CHR 0xBB, CHR 0x95, CHR 0x20, CHR 0x73,
      CHR 0xE1, CHR 0xBB, CHR 0x91, CHR 0x20, CHR 0x68, CHR 0xC3, CHR 0xB4, CHR 0x6D,
      CHR 0x20, CHR 0x6E, CHR 0x61, CHR 0x79, CHR 0x2A, CHR 0x0A, CHR 0x0A]"

text \<open>The line written for a source: a loudspeaker sign, the region, the title.\<close>

definition sourceHeader :: "string \<Rightarrow> string \<Rightarrow> string" where
  "sourceHeader region title =
     [CHR 0xF0, CHR 0x9F, CHR 0x93, CHR 0xA2, CHR 0x20] @ region @ '' - '' @ title @ nl"

text \<open>The loop \<^verbatim>\<open>for _, p := range prizes\<close>, writing to \<^verbatim>\<open>finalMessage\<close>.\<close>

fun writePrizes :: "string list \<Rightarrow> string \<Rightarrow> string" where
  "writePrizes [] finalMessage = finalMessage"
| "writePrizes (p # prizes) finalMessage = writePrizes prizes (finalMessage @ p @ nl)"

text \<open>
  The loop \<^verbatim>\<open>for loc, prizes := range prizesByLocation\<close>, visiting the keys in the
  order \<open>locs\<close>; only entries of the map are visited.
\<close>

fun writeLocations :: "PrizeTable \<Rightarrow> string list \<Rightarrow> string \<Rightarrow> string" where
  "writeLocations prizesByLocation [] finalMessage = finalMessage"
| "writeLocations prizesByLocation (loc # locs) finalMessage =
     (case prizesByLocation loc of
        None \<Rightarrow> writeLocations prizesByLocation locs finalMessage
      | Some prizes \<Rightarrow>
          writeLocations prizesByLocation locs
            (writePrizes prizes (if loc \<noteq> [] then finalMessage @ loc @ nl else finalMessage)
               @ nl))"

text \<open>
  The orders in which one run visits its maps: the regions of \<^verbatim>\<open>rssURLs\<close>, and for
  each region the locations of its prize table.
\<close>

record MapOrders =
  sourceOrder :: "string list"
  locationOrder :: "string \<Rightarrow> string list"

text \<open>
  The loop \<^verbatim>\<open>for region, url := range rssURLs\<close>, with \<^verbatim>\<open>finalMessage\<close> and the calls
  made so far as its state.
\<close>

fun runSources ::
    "Net \<Rightarrow> (string \<Rightarrow> string list) \<Rightarrow> string list \<Rightarrow> string \<times> Call list
       \<Rightarrow> string \<times> Call list" where
  "runSources net locs [] (finalMessage, calls) = (finalMessage, calls)"
| "runSources net locs (region # regions) (finalMessage, calls) =
     (case rssURLs region of
        None \<Rightarrow> runSources net locs regions (finalMessage, calls)
      | Some url \<Rightarrow>
          (case fetchRSS net url of
             Inl err \<Rightarrow> runSources net locs regions (finalMessage, calls @ [HttpGet url])
           | Inr rss \<Rightarrow>
               (case Items (Channel rss) of
                  [] \<Rightarrow> runSources net locs regions (finalMessage, calls @ [HttpGet url])
                | item # items \<Rightarrow>
                    runSources net locs regions
                      (writeLocations (parseDescription (Description item)) (locs region)
                         (finalMessage @ sourceHeader region (Title item)),
                       calls @ [HttpGet url]))))"

text \<open>The message that \<^verbatim>\<open>runJob\<close> builds, and the calls of its fetches.\<close>

definition buildReport :: "Net \<Rightarrow> MapOrders \<Rightarrow> string \<times> Call list" where
  "buildReport net ord =
     runSources net (locationOrder ord) (sourceOrder ord) (messageHeader, [])"

definition runJob :: "Config \<Rightarrow> Net \<Rightarrow> MapOrders \<Rightarrow> Call list" where
  "runJob cfg net ord =
     (let (msg, calls) = buildReport net ord
      in snd (sendToTelegram cfg net msg calls))"

section \<open>Notions used in the statements\<close>

text \<open>The lines of a description as the loop sees them: split and trimmed.\<close>

definition trimmedLines :: "string \<Rightarrow> string list" where
  "trimmedLines desc = map TrimSpace (splitLines desc)"

text \<open>
  The prize lines that the loop files under \<open>loc\<close>, read off the trimmed lines in
  their order; \<open>cur\<close> is the location in force at the start.
\<close>

fun prizesAt :: "string \<Rightarrow> string \<Rightarrow> string list \<Rightarrow> string list" where
  "prizesAt loc cur [] = []"
| "prizesAt loc cur (l # ls) =
     (if isLocation l then prizesAt loc l ls
      else if isPrize l \<and> cur = loc then l # prizesAt loc cur ls
      else prizesAt loc cur ls)"

text \<open>
  The description of the order-preservation example: \<^verbatim>\<open>[A]\<close>, two prize lines,
  \<^verbatim>\<open>[B]\<close>, one prize line, separated by newlines.
\<close>

definition exampleDesc :: string where
  "exampleDesc = ''[A]'' @ nl @ ''G.1: x'' @ nl @ ''G.2: y'' @ nl @ ''[B]'' @ nl @ ''G.3: z''"

text \<open>
  The three spellings of a break tag that \<^verbatim>\<open>parseDescription\<close> replaces, and a
  description written as pieces of text, each followed by a break tag in some spelling,
  and a last piece.
\<close>

datatype BreakTag = Br | BrSlash | BrSpaceSlash

fun spelling :: "BreakTag \<Rightarrow> string" where
  "spelling Br = ''<br>''"
| "spelling BrSlash = ''<br/>''"
| "spelling BrSpaceSlash = ''<br />''"

fun withBreaks :: "(string \<times> BreakTag) list \<Rightarrow> string \<Rightarrow> string" where
  "withBreaks [] rest = rest"
| "withBreaks ((text, tag) # pieces) rest = text @ spelling tag @ withBreaks pieces rest"

text \<open>The spellings of a break tag with an upper-case letter in its name.\<close>

definition upperSpellings :: "string list" where
  "upperSpellings =
     [''<BR>'', ''<Br>'', ''<bR>'', ''<BR/>'', ''<Br/>'', ''<bR/>'',
      ''<BR />'', ''<Br />'', ''<bR />'']"

text \<open>
  The item that a run renders for a region: the first item of its feed, when the
  fetch succeeds and the feed has an item.
\<close>

definition sourceItem :: "Net \<Rightarrow> string \<Rightarrow> Item option" where
  "sourceItem net region =
     (case rssURLs region of
        None \<Rightarrow> None
      | Some url \<Rightarrow>
          (case fetchRSS net url of
             Inl err \<Rightarrow> None
           | Inr rss \<Rightarrow> (case Items (Channel rss) of [] \<Rightarrow> None | item # items \<Rightarrow> Some item)))"

text \<open>The orders that the runtime may choose in a run against \<open>net\<close>.\<close>

definition validOrders :: "Net \<Rightarrow> MapOrders \<Rightarrow> bool" where
  "validOrders net ord \<longleftrightarrow>
     rangeOrder rssURLs (sourceOrder ord) \<and>
     list_all
       (\<lambda>region.
          case sourceItem net region of
            None \<Rightarrow> True
          | Some item \<Rightarrow>
              rangeOrder (parseDescription (Description item)) (locationOrder ord region))
       (sourceOrder ord)"

text \<open>
  What one visited entry of a prize table adds to the message, and what one region
  adds: nothing when its fetch failed or its feed is empty.
\<close>

definition locationBlock :: "PrizeTable \<Rightarrow> string \<Rightarrow> string" where
  "locationBlock prizesByLocation loc =
     (case prizesByLocation loc of
        None \<Rightarrow> []
      | Some prizes \<Rightarrow>
          (if loc \<noteq> [] then loc @ nl else []) @ concat (map (\<lambda>p. p @ nl) prizes) @ nl)"

definition sourceBlock :: "Net \<Rightarrow> (string \<Rightarrow> string list) \<Rightarrow> string \<Rightarrow> string" where
  "sourceBlock net locs region =
     (case sourceItem net region of
        None \<Rightarrow> []
      | Some item \<Rightarrow>
          sourceHeader region (Title item) @
          concat (map (locationBlock (parseDescription (Description item))) (locs region)))"

text \<open>
  How the receiver of an \<^verbatim>\<open>application/x-www-form-urlencoded\<close> body finds its
  fields (URL standard, urlencoded parsing; \<^verbatim>\<open>url.ParseQuery\<close> of the Go library does the
  same): the body is split at every \<^verbatim>\<open>&\<close>, each non-empty piece at its first \<^verbatim>\<open>=\<close>.
  Name and value are then percent-decoded, a step left out here.
\<close>

fun cutAt :: "char \<Rightarrow> string \<Rightarrow> string \<times> string" where
  "cutAt sep [] = ([], [])"
| "cutAt sep (c # cs) =
     (if c = sep then ([], cs) else (case cutAt sep cs of (before, after) \<Rightarrow> (c # before, after)))"

definition formFields :: "string \<Rightarrow> (string \<times> string) list" where
  "formFields body = map (cutAt (CHR ''='')) (filter (\<lambda>f. f \<noteq> []) (Split body ''&''))"

text \<open>
  Concrete surroundings for the examples: a feed item; a network on which the fetch
  of the northern feed fails, the other two feeds hold that item, and the notification
  endpoint answers 403; a network on which every request fails; a network on which
  only the southern feed is fetched, its first item titled \<^verbatim>\<open>A&B\<close>; two orders of
  visiting \<^verbatim>\<open>rssURLs\<close>; a configuration.
\<close>

definition exampleItem :: Item where
  "exampleItem = \<lparr>Title = ''XS'', Description = ''[A]<br>G.1: 7'', PubDate = ''today''\<rparr>"

definition exampleNet :: Net where
  "exampleNet =
     \<lparr>http_Get = (\<lambda>url. if url = ''https://xosodaiphat.com/ket-qua-xo-so-mien-bac-xsmb.rss''
                         then Inl (Error ''connection refused'')
                         else Inr \<lparr>StatusCode = 200, Body = Inr url\<rparr>),
      http_Post = (\<lambda>url contentType body. Inr \<lparr>StatusCode = 403, Body = Inr []\<rparr>),
      xml_Unmarshal = (\<lambda>data. Inr \<lparr>Channel = \<lparr>Items = [exampleItem]\<rparr>\<rparr>)\<rparr>"

definition deadNet :: Net where
  "deadNet =
     \<lparr>http_Get = (\<lambda>url. Inl (Error ''no route to host'')),
      http_Post = (\<lambda>url contentType body. Inl (Error ''no route to host'')),
      xml_Unmarshal = (\<lambda>data. Inl (Error ''EOF''))\<rparr>"

definition ampersandNet :: Net where
  "ampersandNet =
     \<lparr>http_Get = (\<lambda>url. if url = ''https://xosodaiphat.com/ket-qua-xo-so-mien-nam-xsmn.rss''
                         then Inr \<lparr>StatusCode = 200, Body = Inr ''<rss/>''\<rparr>
                         else Inl (Error ''connection refused'')),
      http_Post = (\<lambda>url contentType body. Inr \<lparr>StatusCode = 200, Body = Inr []\<rparr>),
      xml_Unmarshal = (\<lambda>data. Inr \<lparr>Channel = \<lparr>Items = [exampleItem\<lparr>Title := ''A&B''\<rparr>]\<rparr>\<rparr>)\<rparr>"

definition orderNorthFirst :: MapOrders where
  "orderNorthFirst =
     \<lparr>sourceOrder = [mienBac, mienTrung, mienNam], locationOrder = (\<lambda>region. [''[A]''])\<rparr>"

definition orderSouthFirst :: MapOrders where
  "orderSouthFirst =
     \<lparr>sourceOrder = [mienNam, mienTrung, mienBac], locationOrder = (\<lambda>region. [''[A]''])\<rparr>"

definition exampleConfig :: Config where
  "exampleConfig = \<lparr>telegramBotToken = ''T'', telegramChatID = ''42''\<rparr>"

section \<open>Evaluation of the examples\<close>

lemmas eval_defs = parseDescription_def splitLines_def replaceBreaks_def nl_def Split_def TrimSpace_def
  TrimLeftSpace_def TrimRightSpace_def unicodeSpaces_def isLocation_def isPrize_def appendPrize_def

lemmas job_defs = buildReport_def rssURLs_def mienBac_def mienTrung_def mienNam_def fetchRSS_def
  sourceHeader_def messageHeader_def sourceItem_def

lemma exampleItem_table: "parseDescription (Description exampleItem) = [''[A]'' \<mapsto> [''G.1: 7'']]"
  by (simp add: exampleItem_def eval_defs)

lemma rangeOrder_north: "rangeOrder rssURLs [mienBac, mienTrung, mienNam]"
  by (auto simp: rangeOrder_def rssURLs_def mienBac_def mienTrung_def mienNam_def)

lemma rangeOrder_south: "rangeOrder rssURLs [mienNam, mienTrung, mienBac]"
  by (auto simp: rangeOrder_def rssURLs_def mienBac_def mienTrung_def mienNam_def)

lemma exampleNet_items:
  "sourceItem exampleNet mienBac = None"
  "sourceItem exampleNet mienTrung = Some exampleItem"
  "sourceItem exampleNet mienNam = Some exampleItem"
  by (simp_all add: exampleNet_def job_defs)

lemma valid_north: "validOrders exampleNet orderNorthFirst"
  by (simp add: validOrders_def orderNorthFirst_def rangeOrder_north exampleNet_items
        exampleItem_table) (simp add: rangeOrder_def)

lemma valid_south: "validOrders exampleNet orderSouthFirst"
  by (simp add: validOrders_def orderSouthFirst_def rangeOrder_south exampleNet_items
        exampleItem_table) (simp add: rangeOrder_def)

lemma deadNet_fetch: "fetchRSS deadNet url = Inl (Error ''no route to host'')"
  by (simp add: fetchRSS_def deadNet_def)

lemma ampersandNet_items:
  "sourceItem ampersandNet mienBac = None"
  "sourceItem ampersandNet mienTrung = None"
  "sourceItem ampersandNet mienNam = Some (exampleItem\<lparr>Title := ''A&B''\<rparr>)"
  by (simp_all add: ampersandNet_def job_defs)

lemma ampersandNet_valid: "validOrders ampersandNet orderNorthFirst"
  by (simp add: validOrders_def orderNorthFirst_def rangeOrder_north ampersandNet_items
        exampleItem_table) (simp add: rangeOrder_def)

section \<open>The loop of the extractor\<close>

lemma isLocation_Nil: "\<not> isLocation []"
  by (simp add: isLocation_def)

lemma isPrize_Nil: "\<not> isPrize []"
  by (simp add: isPrize_def)

lemma parseLines_lookup:
  "parseLines ls results cur loc =
     (case prizesAt loc cur (map TrimSpace ls) of
        [] \<Rightarrow> results loc
      | p # ps \<Rightarrow> Some ((case results loc of None \<Rightarrow> [] | Some qs \<Rightarrow> qs) @ p # ps))"
proof (induction ls arbitrary: results cur)
  case Nil
  show ?case by simp
next
  case (Cons l ls)
  show ?case
  proof (cases "isLocation (TrimSpace l)")
    case True
    then have "TrimSpace l \<noteq> []" using isLocation_Nil by auto
    with True show ?thesis by (simp add: Cons.IH)
  next
    case notloc: False
    show ?thesis
    proof (cases "isPrize (TrimSpace l)")
      case True
      then have ne: "TrimSpace l \<noteq> []" using isPrize_Nil by auto
      show ?thesis
      proof (cases "cur = loc")
        case True
        with notloc \<open>isPrize (TrimSpace l)\<close> ne show ?thesis
          by (simp add: Cons.IH appendPrize_def split: list.splits option.splits)
      next
        case False
        then have "loc \<noteq> cur" by auto
        with False notloc \<open>isPrize (TrimSpace l)\<close> ne show ?thesis
          by (simp add: Cons.IH appendPrize_def split: list.splits)
      qed
    next
      case False
      with notloc show ?thesis by (simp add: Cons.IH Let_def)
    qed
  qed
qed

lemma parseDescription_lookup:
  "parseDescription desc loc =
     (case prizesAt loc [] (trimmedLines desc) of [] \<Rightarrow> None | p # ps \<Rightarrow> Some (p # ps))"
  by (simp add: parseDescription_def trimmedLines_def parseLines_lookup split: list.splits)

lemma subseq_prizesAt: "subseq (prizesAt loc cur ls) ls"
  by (induction ls arbitrary: cur) auto

lemma prizesAt_isPrize: "p \<in> set (prizesAt loc cur ls) \<Longrightarrow> isPrize p"
  by (induction ls arbitrary: cur) (auto split: if_splits)

lemma prizesAt_key: "prizesAt loc cur ls \<noteq> [] \<Longrightarrow> loc = cur \<or> (isLocation loc \<and> loc \<in> set ls)"
  by (induction ls arbitrary: cur) (auto split: if_splits)

lemma prizesAt_no_location:
  "\<forall>l\<in>set ls. \<not> isLocation l \<Longrightarrow>
     prizesAt loc cur ls = (if cur = loc then filter isPrize ls else [])"
  by (induction ls) auto

lemma parseDescription_Some:
  assumes "parseDescription desc loc = Some ps"
  shows "ps = prizesAt loc [] (trimmedLines desc)" and "ps \<noteq> []"
  using assms by (auto simp: parseDescription_lookup split: list.splits)

lemma parseDescription_values_isPrize:
  "parseDescription desc loc = Some ps \<Longrightarrow> p \<in> set ps \<Longrightarrow> isPrize p"
  using parseDescription_Some(1) prizesAt_isPrize by blast

lemma parseDescription_keys:
  "parseDescription desc loc = Some ps \<Longrightarrow> loc = [] \<or> isLocation loc"
  using parseDescription_Some prizesAt_key by blast

lemma parseLines_drop_plain:
  "\<not> isLocation (TrimSpace l) \<Longrightarrow> \<not> isPrize (TrimSpace l) \<Longrightarrow>
     parseLines (xs @ l # ys) results cur = parseLines (xs @ ys) results cur"
  by (induction xs arbitrary: results cur) (simp_all add: Let_def)




text \<open>
  C1. The table is a Go map and carries no order of its labels: every rearrangement
  of an order in which a range may visit its keys is such an order too; for the example
  description, visiting \<^verbatim>\<open>[B]\<close> before \<^verbatim>\<open>[A]\<close> is one, and \<^verbatim>\<open>A\<close> is not a key. What
  holds for every description and every label:
  the label is a key exactly when a prize line is filed under it, and then it holds
  exactly those prize lines, in the order in which they occur among the lines of the
  description; a key is the empty label (for prize lines before the first marker) or a
  marker line of the description, brackets included. For the example, \<^verbatim>\<open>[A]\<close> holds
  \<^verbatim>\<open>G.1: x\<close>, \<^verbatim>\<open>G.2: y\<close> and \<^verbatim>\<open>[B]\<close> holds \<^verbatim>\<open>G.3: z\<close>.
\<close>

theorem parseDescription_prize_order:
  "parseDescription desc loc =
     (case prizesAt loc [] (trimmedLines desc) of [] \<Rightarrow> None | p # ps \<Rightarrow> Some (p # ps)) \<and>
   (parseDescription desc loc = Some ps \<longrightarrow>
      ps = prizesAt loc [] (trimmedLines desc) \<and> subseq ps (trimmedLines desc) \<and>
      (loc = [] \<or> isLocation loc \<and> loc \<in> set (trimmedLines desc))) \<and>
   (rangeOrder (parseDescription desc) ks \<and> mset ks' = mset ks \<longrightarrow>
      rangeOrder (parseDescription desc) ks') \<and>
   parseDescription exampleDesc =
     [''[A]'' \<mapsto> [''G.1: x'', ''G.2: y''], ''[B]'' \<mapsto> [''G.3: z'']]"
proof -
  have "rangeOrder (parseDescription desc) ks'"
    if "rangeOrder (parseDescription desc) ks" and "mset ks' = mset ks"
    using that mset_eq_setD [of ks' ks] mset_eq_imp_distinct_iff [of ks' ks]
    by (simp add: rangeOrder_def)
  moreover have "subseq ps (trimmedLines desc)" if "parseDescription desc loc = Some ps"
    using parseDescription_Some(1) [OF that] subseq_prizesAt [of loc "[]" "trimmedLines desc"]
    by simp
  moreover have "loc = [] \<or> isLocation loc \<and> loc \<in> set (trimmedLines desc)"
    if "parseDescription desc loc = Some ps"
    using parseDescription_Some [OF that] prizesAt_key [of loc "[]" "trimmedLines desc"]
    by auto
  moreover have "parseDescription exampleDesc =
      [''[A]'' \<mapsto> [''G.1: x'', ''G.2: y''], ''[B]'' \<mapsto> [''G.3: z'']]"
    by (simp add: exampleDesc_def eval_defs)
  ultimately show ?thesis
    using parseDescription_Some(1) parseDescription_lookup [of desc loc] by blast
qed

theorem parseDescription_prize_order_witness:
  "parseDescription exampleDesc ''[A]'' = Some [''G.1: x'', ''G.2: y''] \<and>
   [''G.1: x'', ''G.2: y''] = prizesAt ''[A]'' [] (trimmedLines exampleDesc) \<and>
   subseq [''G.1: x'', ''G.2: y''] (trimmedLines exampleDesc) \<and>
   isLocation ''[A]'' \<and> ''[A]'' \<in> set (trimmedLines exampleDesc) \<and>
   rangeOrder (parseDescription exampleDesc) [''[A]'', ''[B]''] \<and>
   mset [''[B]'', ''[A]''] = mset [''[A]'', ''[B]''] \<and>
   rangeOrder (parseDescription exampleDesc) [''[B]'', ''[A]'']"
proof -
  have h: "parseDescription exampleDesc ''[A]'' = Some [''G.1: x'', ''G.2: y'']"
    by (simp add: exampleDesc_def eval_defs)
  have n: "''[A]'' \<noteq> []"
    by simp
  have o: "rangeOrder (parseDescription exampleDesc) [''[A]'', ''[B]'']"
    by (simp add: exampleDesc_def eval_defs rangeOrder_def) auto
  have m: "mset [''[B]'', ''[A]''] = mset [''[A]'', ''[B]'']"
    by simp
  from parseDescription_prize_order
    [of exampleDesc "''[A]''" "[''G.1: x'', ''G.2: y'']" "[''[A]'', ''[B]'']" "[''[B]'', ''[A]'']"]
    h n o m
  show ?thesis by blast
qed

theorem parseDescription_order_counterexample:
  "parseDescription exampleDesc ''A'' \<noteq> Some [''G.1: x'', ''G.2: y''] \<and>
   rangeOrder (parseDescription exampleDesc) [''[B]'', ''[A]'']"
  by (simp add: exampleDesc_def eval_defs rangeOrder_def)

text \<open>
  C2. A description none of whose lines is a location marker: all its prize lines, in
  their order, are stored under the empty label, which is then the only key. When it
  has no prize line the table is empty: it has no key at all, as for the empty
  description.
\<close>

theorem parseDescription_no_location:
  assumes "\<forall>l\<in>set (trimmedLines desc). \<not> isLocation l"
  shows "parseDescription desc =
     (if filter isPrize (trimmedLines desc) = [] then Map.empty
      else [[] \<mapsto> filter isPrize (trimmedLines desc)])"
proof
  fix loc
  show "parseDescription desc loc =
     (if filter isPrize (trimmedLines desc) = [] then Map.empty
      else [[] \<mapsto> filter isPrize (trimmedLines desc)]) loc"
    using assms
    by (simp add: parseDescription_lookup prizesAt_no_location split: list.splits)
qed

theorem parseDescription_no_location_witness:
  "trimmedLines ''G.1 <br> note<br/>G.2'' = [''G.1'', ''note'', ''G.2''] \<and>
   \<not> isLocation ''G.1'' \<and> \<not> isLocation ''note'' \<and> \<not> isLocation ''G.2'' \<and>
   parseDescription ''G.1 <br> note<br/>G.2'' = [[] \<mapsto> [''G.1'', ''G.2'']]"
proof -
  have t: "trimmedLines ''G.1 <br> note<br/>G.2'' = [''G.1'', ''note'', ''G.2'']"
    by (simp add: trimmedLines_def eval_defs)
  have h: "\<forall>l\<in>set (trimmedLines ''G.1 <br> note<br/>G.2''). \<not> isLocation l"
    by (simp add: t isLocation_def)
  from parseDescription_no_location [OF h] h show ?thesis
    by (simp add: t isPrize_def)
qed

theorem parseDescription_no_location_counterexample:
  "trimmedLines [] = [[]] \<and> \<not> isLocation [] \<and> dom (parseDescription []) \<noteq> {[]}"
  by (simp add: trimmedLines_def eval_defs)




text \<open>
  C9. A line that, once trimmed, is neither a location marker nor a prize marker is
  dropped: the table is that of the description without the line, the line stands in no
  list of the table, and (unless it is blank, the empty label being the initial
  location) it is not a key.
\<close>

theorem parseDescription_drops_plain:
  assumes "splitLines desc = xs @ l # ys"
    and "\<not> isLocation (TrimSpace l)"
    and "\<not> isPrize (TrimSpace l)"
  shows "parseDescription desc = parseLines (xs @ ys) Map.empty [] \<and>
         (\<forall>loc ps. parseDescription desc loc = Some ps \<longrightarrow> TrimSpace l \<notin> set ps) \<and>
         (TrimSpace l \<noteq> [] \<longrightarrow> parseDescription desc (TrimSpace l) = None)"
proof -
  have "parseDescription desc = parseLines (xs @ ys) Map.empty []"
    unfolding parseDescription_def assms(1)
    using assms(2,3) by (rule parseLines_drop_plain)
  moreover have "TrimSpace l \<notin> set ps" if "parseDescription desc loc = Some ps" for loc ps
    using parseDescription_values_isPrize [OF that] assms(3) by blast
  moreover have "parseDescription desc (TrimSpace l) = None" if "TrimSpace l \<noteq> []"
    using parseDescription_keys [of desc "TrimSpace l"] that assms(2)
    by (cases "parseDescription desc (TrimSpace l)") auto
  ultimately show ?thesis by blast
qed

theorem parseDescription_drops_plain_witness:
  "splitLines ''[A]<br> see below <br>G.1'' = [''[A]''] @ '' see below '' # [''G.1''] \<and>
   TrimSpace '' see below '' = ''see below'' \<and>
   \<not> isLocation ''see below'' \<and> \<not> isPrize ''see below'' \<and>
   parseDescription ''[A]<br> see below <br>G.1'' = parseLines ([''[A]''] @ [''G.1'']) Map.empty [] \<and>
   parseDescription ''[A]<br> see below <br>G.1'' ''see below'' = None"
proof -
  have h1: "splitLines ''[A]<br> see below <br>G.1'' = [''[A]''] @ '' see below '' # [''G.1'']"
    by (simp add: eval_defs)
  have t: "TrimSpace '' see below '' = ''see below''"
    by (simp add: eval_defs)
  have h2: "\<not> isLocation (TrimSpace '' see below '')"
    by (simp add: eval_defs)
  have h3: "\<not> isPrize (TrimSpace '' see below '')"
    by (simp add: eval_defs)
  have ne: "TrimSpace '' see below '' \<noteq> []"
    by (simp add: t)
  note r = parseDescription_drops_plain [OF h1 h2 h3]
  from r have r1: "parseDescription ''[A]<br> see below <br>G.1'' =
      parseLines ([''[A]''] @ [''G.1'']) Map.empty []"
    by (rule conjunct1)
  from r ne have "parseDescription ''[A]<br> see below <br>G.1'' (TrimSpace '' see below '') = None"
    by blast
  then have r3: "parseDescription ''[A]<br> see below <br>G.1'' ''see below'' = None"
    unfolding t .
  note h2' = h2 [unfolded t] and h3' = h3 [unfolded t]
  from h1 t h2' h3' r1 r3 show ?thesis
    by blast
qed

section \<open>Break tags\<close>

lemma HasPrefix_append_self: "HasPrefix (q @ b) q"
  by (induction q) simp_all

lemma HasPrefix_blocked:
  "sep \<noteq> [] \<Longrightarrow> hd sep \<notin> set q \<Longrightarrow> HasPrefix (a @ sep @ b) q = HasPrefix a q"
proof (induction a arbitrary: q)
  case Nil
  then show ?case by (cases q; cases sep) auto
next
  case (Cons c a)
  then show ?case by (cases q) auto
qed

lemma HasPrefix_Cons_blocked:
  "sep \<noteq> [] \<Longrightarrow> hd sep \<notin> set ps \<Longrightarrow>
     HasPrefix (c # a @ sep @ b) (p # ps) = HasPrefix (c # a) (p # ps)"
  by (simp add: HasPrefix_blocked)

lemma ReplaceAll_before:
  assumes "sep \<noteq> []" and "hd sep \<notin> set ps"
  shows "ReplaceAll (a @ sep @ b) (p # ps) new =
           ReplaceAll a (p # ps) new @ ReplaceAll (sep @ b) (p # ps) new"
proof (induction "length a" arbitrary: a rule: less_induct)
  case less
  show ?case
  proof (cases a)
    case Nil
    then show ?thesis by simp
  next
    case (Cons c a')
    show ?thesis
    proof (cases "HasPrefix (c # a') (p # ps)")
      case True
      then have "length ps \<le> length a'"
        using HasPrefix_length [of "c # a'" "p # ps"] by simp
      then have d: "drop (length ps) (a' @ sep @ b) = drop (length ps) a' @ sep @ b"
        by simp
      have "length (drop (length ps) a') < length a"
        using Cons by simp
      then have "ReplaceAll (drop (length ps) a' @ sep @ b) (p # ps) new =
          ReplaceAll (drop (length ps) a') (p # ps) new @ ReplaceAll (sep @ b) (p # ps) new"
        by (rule less)
      with True d show ?thesis
        using HasPrefix_Cons_blocked [OF assms, of c a' b p]
        by (simp add: Cons del: HasPrefix.simps)
    next
      case False
      have "length a' < length a" using Cons by simp
      then have "ReplaceAll (a' @ sep @ b) (p # ps) new =
          ReplaceAll a' (p # ps) new @ ReplaceAll (sep @ b) (p # ps) new"
        by (rule less)
      with False show ?thesis
        using HasPrefix_Cons_blocked [OF assms, of c a' b p]
        by (simp add: Cons del: HasPrefix.simps)
    qed
  qed
qed

lemma replaceBreaks_Br:
  "replaceBreaks (a @ ''<br>'' @ b) = replaceBreaks a @ nl @ replaceBreaks b"
proof -
  have 1: "ReplaceAll (a @ ''<br>'' @ b) ''<br>'' nl =
        ReplaceAll a ''<br>'' nl @ nl @ ReplaceAll b ''<br>'' nl" for a b
    by (subst ReplaceAll_before) simp_all
  have 2: "ReplaceAll (a @ nl @ b) ''<br/>'' nl =
        ReplaceAll a ''<br/>'' nl @ nl @ ReplaceAll b ''<br/>'' nl" for a b
    by (subst ReplaceAll_before) (simp_all add: nl_def)
  have 3: "ReplaceAll (a @ nl @ b) ''<br />'' nl =
        ReplaceAll a ''<br />'' nl @ nl @ ReplaceAll b ''<br />'' nl" for a b
    by (subst ReplaceAll_before) (simp_all add: nl_def)
  show ?thesis
    unfolding replaceBreaks_def by (simp only: 1 2 3)
qed

lemma replaceBreaks_BrSlash:
  "replaceBreaks (a @ ''<br/>'' @ b) = replaceBreaks a @ nl @ replaceBreaks b"
proof -
  have 1: "ReplaceAll (a @ ''<br/>'' @ b) ''<br>'' nl =
        ReplaceAll a ''<br>'' nl @ ''<br/>'' @ ReplaceAll b ''<br>'' nl" for a b
    by (subst ReplaceAll_before) simp_all
  have 2: "ReplaceAll (a @ ''<br/>'' @ b) ''<br/>'' nl =
        ReplaceAll a ''<br/>'' nl @ nl @ ReplaceAll b ''<br/>'' nl" for a b
    by (subst ReplaceAll_before) simp_all
  have 3: "ReplaceAll (a @ nl @ b) ''<br />'' nl =
        ReplaceAll a ''<br />'' nl @ nl @ ReplaceAll b ''<br />'' nl" for a b
    by (subst ReplaceAll_before) (simp_all add: nl_def)
  show ?thesis
    unfolding replaceBreaks_def by (simp only: 1 2 3)
qed

lemma replaceBreaks_BrSpaceSlash:
  "replaceBreaks (a @ ''<br />'' @ b) = replaceBreaks a @ nl @ replaceBreaks b"
proof -
  have 1: "ReplaceAll (a @ ''<br />'' @ b) ''<br>'' nl =
        ReplaceAll a ''<br>'' nl @ ''<br />'' @ ReplaceAll b ''<br>'' nl" for a b
    by (subst ReplaceAll_before) simp_all
  have 2: "ReplaceAll (a @ ''<br />'' @ b) ''<br/>'' nl =
        ReplaceAll a ''<br/>'' nl @ ''<br />'' @ ReplaceAll b ''<br/>'' nl" for a b
    by (subst ReplaceAll_before) simp_all
  have 3: "ReplaceAll (a @ ''<br />'' @ b) ''<br />'' nl =
        ReplaceAll a ''<br />'' nl @ nl @ ReplaceAll b ''<br />'' nl" for a b
    by (subst ReplaceAll_before) simp_all
  show ?thesis
    unfolding replaceBreaks_def by (simp only: 1 2 3)
qed

lemma replaceBreaks_spelling:
  "replaceBreaks (a @ spelling tag @ b) = replaceBreaks a @ nl @ replaceBreaks b"
  by (cases tag) (simp_all only: spelling.simps replaceBreaks_Br replaceBreaks_BrSlash
        replaceBreaks_BrSpaceSlash)

lemma replaceBreaks_withBreaks:
  "replaceBreaks (withBreaks pieces rest) =
     concat (map (\<lambda>text. replaceBreaks text @ nl) (map fst pieces)) @ replaceBreaks rest"
proof (induction pieces)
  case Nil
  show ?case by simp
next
  case (Cons piece pieces)
  obtain body tag where "piece = (body, tag)" by (cases piece)
  with Cons show ?case by (simp add: replaceBreaks_spelling)
qed

lemma ReplaceAll_absent: "\<not> Contains s (p # ps) \<Longrightarrow> ReplaceAll s (p # ps) new = s"
  by (induction s) (simp_all del: HasPrefix.simps)

lemma replaceBreaks_absent:
  assumes "\<not> Contains desc ''<br>''" and "\<not> Contains desc ''<br/>''"
    and "\<not> Contains desc ''<br />''"
  shows "replaceBreaks desc = desc"
  using assms by (simp add: replaceBreaks_def ReplaceAll_absent del: Contains.simps)

lemma ReplaceAll_kept:
  assumes "sep \<noteq> []" and "hd sep \<notin> set ps"
    and "ReplaceAll (sep @ b) (p # ps) new = sep @ ReplaceAll b (p # ps) new"
  shows "ReplaceAll (a @ sep @ b) (p # ps) new =
           ReplaceAll a (p # ps) new @ sep @ ReplaceAll b (p # ps) new"
  using ReplaceAll_before [OF assms(1,2), of a b p new] assms(3) by simp

lemma upperSpellings_kept:
  assumes "tag \<in> set upperSpellings"
  shows "tag \<noteq> []" and "hd tag = CHR ''<''" and "CHR 0x0A \<notin> set tag"
    and "ReplaceAll (tag @ b) ''<br>'' nl = tag @ ReplaceAll b ''<br>'' nl"
    and "ReplaceAll (tag @ b) ''<br/>'' nl = tag @ ReplaceAll b ''<br/>'' nl"
    and "ReplaceAll (tag @ b) ''<br />'' nl = tag @ ReplaceAll b ''<br />'' nl"
  using assms by (auto simp: upperSpellings_def)

lemma replaceBreaks_upper:
  assumes "tag \<in> set upperSpellings"
  shows "replaceBreaks (a @ tag @ b) = replaceBreaks a @ tag @ replaceBreaks b"
proof -
  note k = upperSpellings_kept [OF assms]
  have 1: "ReplaceAll (a @ tag @ b) ''<br>'' nl =
        ReplaceAll a ''<br>'' nl @ tag @ ReplaceAll b ''<br>'' nl" for a b
    by (rule ReplaceAll_kept) (simp_all add: k)
  have 2: "ReplaceAll (a @ tag @ b) ''<br/>'' nl =
        ReplaceAll a ''<br/>'' nl @ tag @ ReplaceAll b ''<br/>'' nl" for a b
    by (rule ReplaceAll_kept) (simp_all add: k)
  have 3: "ReplaceAll (a @ tag @ b) ''<br />'' nl =
        ReplaceAll a ''<br />'' nl @ tag @ ReplaceAll b ''<br />'' nl" for a b
    by (rule ReplaceAll_kept) (simp_all add: k)
  show ?thesis
    unfolding replaceBreaks_def by (simp only: 1 2 3)
qed

lemma splitFrom_not_Nil: "splitFrom field s [c] \<noteq> []"
  by (induction s arbitrary: field) simp_all

lemma splitFrom_field:
  "splitFrom field s [c] = (field @ hd (splitFrom [] s [c])) # tl (splitFrom [] s [c])"
proof (induction s arbitrary: field)
  case Nil
  show ?case by simp
next
  case (Cons x xs)
  show ?case
  proof (cases "x = c")
    case True
    then show ?thesis by simp
  next
    case False
    with Cons [of "field @ [x]"] Cons [of "[x]"] show ?thesis by simp
  qed
qed

lemma splitFrom_append:
  "splitFrom field (x @ y) [c] =
     butlast (splitFrom field x [c]) @
     [last (splitFrom field x [c]) @ hd (splitFrom [] y [c])] @ tl (splitFrom [] y [c])"
proof (induction x arbitrary: field)
  case Nil
  show ?case using splitFrom_field [of field y c] by simp
next
  case (Cons a x)
  show ?case
    by (simp add: Cons splitFrom_not_Nil)
qed

lemma splitFrom_plain: "c \<notin> set t \<Longrightarrow> splitFrom field t [c] = [field @ t]"
  by (induction t arbitrary: field) auto

lemma Split_around:
  assumes "CHR 0x0A \<notin> set t"
  shows "Split (x @ t @ y) nl =
     butlast (Split x nl) @ [last (Split x nl) @ t @ hd (Split y nl)] @ tl (Split y nl)"
proof -
  have "splitFrom [] (t @ y) [CHR 0x0A] =
      (t @ hd (splitFrom [] y [CHR 0x0A])) # tl (splitFrom [] y [CHR 0x0A])"
    using splitFrom_append [of "[]" t y "CHR 0x0A"] splitFrom_plain [OF assms, of "[]"]
    by simp
  then show ?thesis
    using splitFrom_append [of "[]" x "t @ y" "CHR 0x0A"]
    by (simp add: Split_def nl_def)
qed

lemma splitLines_upper:
  assumes "tag \<in> set upperSpellings"
  shows "splitLines (a @ tag @ b) =
     butlast (splitLines a) @ [last (splitLines a) @ tag @ hd (splitLines b)] @ tl (splitLines b)"
  unfolding splitLines_def replaceBreaks_upper [OF assms]
  using upperSpellings_kept(3) [OF assms] by (rule Split_around)

text \<open>
  C5. Two descriptions with the same pieces of text, whose break tags are spelled in
  any of the three lower-case ways \<^verbatim>\<open><br>\<close>, \<^verbatim>\<open><br/>\<close>, \<^verbatim>\<open><br />\<close>, have equal
  tables. A tag with an upper-case letter is not recognised: wherever it stands, the
  text is not split there, and the tag stays as it is inside one line, between the last
  line of the text before it and the first line of the text after it. A text in which
  none of the three lower-case spellings occurs is split as it is.
\<close>

theorem parseDescription_break_spelling:
  "(map fst pieces = map fst pieces' \<longrightarrow>
      parseDescription (withBreaks pieces rest) = parseDescription (withBreaks pieces' rest)) \<and>
   (tag \<in> set upperSpellings \<longrightarrow>
      splitLines (a @ tag @ b) =
        butlast (splitLines a) @ [last (splitLines a) @ tag @ hd (splitLines b)] @
        tl (splitLines b)) \<and>
   (\<not> Contains desc ''<br>'' \<and> \<not> Contains desc ''<br/>'' \<and> \<not> Contains desc ''<br />'' \<longrightarrow>
      replaceBreaks desc = desc \<and> splitLines desc = Split desc nl)"
proof -
  have "parseDescription (withBreaks pieces rest) = parseDescription (withBreaks pieces' rest)"
    if "map fst pieces = map fst pieces'"
    using that by (simp add: parseDescription_def splitLines_def replaceBreaks_withBreaks)
  moreover have "replaceBreaks desc = desc \<and> splitLines desc = Split desc nl"
    if "\<not> Contains desc ''<br>'' \<and> \<not> Contains desc ''<br/>'' \<and> \<not> Contains desc ''<br />''"
    using that replaceBreaks_absent [of desc] by (simp add: splitLines_def del: Contains.simps)
  ultimately show ?thesis
    using splitLines_upper [of tag a b] by blast
qed

theorem parseDescription_break_spelling_witness:
  "map fst [(''[A]'', Br), (''G.1: 7'', BrSlash)] = map fst [(''[A]'', BrSpaceSlash), (''G.1: 7'', Br)] \<and>
   parseDescription ''[A]<br>G.1: 7<br/>G.2: 8'' = parseDescription ''[A]<br />G.1: 7<br>G.2: 8'' \<and>
   ''<Br/>'' \<in> set upperSpellings \<and>
   splitLines (''[A]<br>G.1'' @ ''<Br/>'' @ ''G.2<br>G.3'') = [''[A]'', ''G.1<Br/>G.2'', ''G.3''] \<and>
   \<not> Contains ''G.1<BR>G.2'' ''<br>'' \<and> \<not> Contains ''G.1<BR>G.2'' ''<br/>'' \<and>
   \<not> Contains ''G.1<BR>G.2'' ''<br />'' \<and>
   replaceBreaks ''G.1<BR>G.2'' = ''G.1<BR>G.2'' \<and>
   splitLines ''G.1<BR>G.2'' = [''G.1<BR>G.2'']"
proof -
  note t = parseDescription_break_spelling
    [of "[(''[A]'', Br), (''G.1: 7'', BrSlash)]" "[(''[A]'', BrSpaceSlash), (''G.1: 7'', Br)]"
        "''G.2: 8''" "''<Br/>''" "''[A]<br>G.1''" "''G.2<br>G.3''" "''G.1<BR>G.2''"]
  have h1: "map fst [(''[A]'', Br), (''G.1: 7'', BrSlash)] =
            map fst [(''[A]'', BrSpaceSlash), (''G.1: 7'', Br)]"
    by simp
  have h2: "''<Br/>'' \<in> set upperSpellings"
    by (simp add: upperSpellings_def)
  have h3: "\<not> Contains ''G.1<BR>G.2'' ''<br>'' \<and> \<not> Contains ''G.1<BR>G.2'' ''<br/>'' \<and>
            \<not> Contains ''G.1<BR>G.2'' ''<br />''"
    by simp
  from t h1 have c1: "parseDescription ''[A]<br>G.1: 7<br/>G.2: 8'' =
      parseDescription ''[A]<br />G.1: 7<br>G.2: 8''"
    by simp
  from t h2 have "splitLines (''[A]<br>G.1'' @ ''<Br/>'' @ ''G.2<br>G.3'') =
      butlast (splitLines ''[A]<br>G.1'') @
      [last (splitLines ''[A]<br>G.1'') @ ''<Br/>'' @ hd (splitLines ''G.2<br>G.3'')] @
      tl (splitLines ''G.2<br>G.3'')"
    by blast
  moreover have "splitLines ''[A]<br>G.1'' = [''[A]'', ''G.1'']"
    and "splitLines ''G.2<br>G.3'' = [''G.2'', ''G.3'']"
    by (simp_all add: eval_defs)
  ultimately have c2: "splitLines (''[A]<br>G.1'' @ ''<Br/>'' @ ''G.2<br>G.3'') =
      [''[A]'', ''G.1<Br/>G.2'', ''G.3'']"
    by simp
  from t h3 have c3: "replaceBreaks ''G.1<BR>G.2'' = ''G.1<BR>G.2'' \<and>
      splitLines ''G.1<BR>G.2'' = Split ''G.1<BR>G.2'' nl"
    by blast
  then have c4: "splitLines ''G.1<BR>G.2'' = [''G.1<BR>G.2'']"
    by (simp add: Split_def nl_def)
  from h1 c1 h2 c2 h3 c3 c4 show ?thesis
    by blast
qed

theorem parseDescription_break_case_counterexample:
  "parseDescription ''G.1<BR>G.2'' \<noteq> parseDescription ''G.1<br>G.2''"
proof
  assume "parseDescription ''G.1<BR>G.2'' = parseDescription ''G.1<br>G.2''"
  then have "parseDescription ''G.1<BR>G.2'' [] = parseDescription ''G.1<br>G.2'' []"
    by simp
  then show False
    by (simp add: eval_defs)
qed

section \<open>The report and the run\<close>

lemma writePrizes_eq: "writePrizes prizes fm = fm @ concat (map (\<lambda>p. p @ nl) prizes)"
  by (induction prizes arbitrary: fm) simp_all

lemma writeLocations_eq:
  "writeLocations tbl locs fm = fm @ concat (map (locationBlock tbl) locs)"
  by (induction locs arbitrary: fm)
     (simp_all add: locationBlock_def writePrizes_eq split: option.splits)

lemma runSources_message:
  "fst (runSources net locs regions (fm, calls)) =
     fm @ concat (map (sourceBlock net locs) regions)"
proof (induction regions arbitrary: fm calls)
  case Nil
  show ?case by simp
next
  case (Cons region regions)
  show ?case
    by (simp add: Cons.IH sourceBlock_def sourceItem_def writeLocations_eq
          split: option.splits sum.splits list.splits)
qed

lemma runSources_calls:
  "filter isPost (snd (runSources net locs regions (fm, calls))) = filter isPost calls"
proof (induction regions arbitrary: fm calls)
  case Nil
  show ?case by simp
next
  case (Cons region regions)
  show ?case
    by (simp add: Cons.IH split: option.splits sum.splits list.splits)
qed

lemma buildReport_message:
  "fst (buildReport net ord) =
     messageHeader @ concat (map (sourceBlock net (locationOrder ord)) (sourceOrder ord))"
  by (simp add: buildReport_def runSources_message)

lemma buildReport_calls: "filter isPost (snd (buildReport net ord)) = []"
  by (simp add: buildReport_def runSources_calls)

lemma runJob_posts:
  "filter isPost (runJob cfg net ord) =
     [HttpPost (telegramURL cfg) ''application/x-www-form-urlencoded''
        (telegramPayload cfg (fst (buildReport net ord)))]"
proof -
  obtain msg calls where b: "buildReport net ord = (msg, calls)"
    by (cases "buildReport net ord")
  with buildReport_calls [of net ord] have "filter isPost calls = []" by simp
  with b show ?thesis
    by (simp add: runJob_def sendToTelegram_def Let_def split: sum.splits)
qed

lemma sourceItem_None:
  assumes "rssURLs region = Some url"
    and "case fetchRSS net url of Inl err \<Rightarrow> True | Inr rss \<Rightarrow> Items (Channel rss) = []"
  shows "sourceItem net region = None"
  using assms by (simp add: sourceItem_def split: sum.splits)





lemma rangeOrder_mset: "rangeOrder m ks \<Longrightarrow> rangeOrder m ks' \<Longrightarrow> mset ks = mset ks'"
  using set_eq_iff_mset_eq_distinct [of ks ks'] by (simp add: rangeOrder_def)

lemma report_north:
  "fst (buildReport exampleNet orderNorthFirst) =
     messageHeader @ sourceHeader mienTrung ''XS'' @ ''[A]'' @ nl @ ''G.1: 7'' @ nl @ nl @
     sourceHeader mienNam ''XS'' @ ''[A]'' @ nl @ ''G.1: 7'' @ nl @ nl"
  by (simp add: buildReport_message orderNorthFirst_def sourceBlock_def exampleNet_items
        exampleItem_table locationBlock_def) (simp add: exampleItem_def)

lemma report_south:
  "fst (buildReport exampleNet orderSouthFirst) =
     messageHeader @ sourceHeader mienNam ''XS'' @ ''[A]'' @ nl @ ''G.1: 7'' @ nl @ nl @
     sourceHeader mienTrung ''XS'' @ ''[A]'' @ nl @ ''G.1: 7'' @ nl @ nl"
  by (simp add: buildReport_message orderSouthFirst_def sourceBlock_def exampleNet_items
        exampleItem_table locationBlock_def) (simp add: exampleItem_def)

lemma ampersandNet_report:
  "fst (buildReport ampersandNet orderNorthFirst) =
     messageHeader @ sourceHeader mienNam ''A&B'' @ ''[A]'' @ nl @ ''G.1: 7'' @ nl @ nl"
  by (simp add: buildReport_message orderNorthFirst_def sourceBlock_def ampersandNet_items
        exampleItem_table locationBlock_def)

text \<open>
  C4. The message is the fixed header followed by what each region adds, in the order
  in which the range over \<^verbatim>\<open>rssURLs\<close> visits the regions. That order is the runtime's:
  with the same fetch results, a run that visits the north first and one that visits
  the south first build different messages. Two runs that visit the locations of each
  table alike build the same blocks, in some order.
\<close>

theorem buildReport_by_iteration_order:
  "fst (buildReport net ord) =
     messageHeader @ concat (map (sourceBlock net (locationOrder ord)) (sourceOrder ord)) \<and>
   (validOrders net ord \<and> validOrders net ord' \<and> locationOrder ord' = locationOrder ord \<longrightarrow>
      mset (map (sourceBlock net (locationOrder ord')) (sourceOrder ord')) =
      mset (map (sourceBlock net (locationOrder ord)) (sourceOrder ord)))"
proof -
  have "mset (map (sourceBlock net (locationOrder ord')) (sourceOrder ord')) =
        mset (map (sourceBlock net (locationOrder ord)) (sourceOrder ord))"
    if v: "validOrders net ord" "validOrders net ord'"
      and l: "locationOrder ord' = locationOrder ord"
  proof -
    from v have "mset (sourceOrder ord') = mset (sourceOrder ord)"
      by (auto simp: validOrders_def intro: rangeOrder_mset)
    then have "image_mset (sourceBlock net (locationOrder ord)) (mset (sourceOrder ord')) =
               image_mset (sourceBlock net (locationOrder ord)) (mset (sourceOrder ord))"
      by simp
    with l show ?thesis by simp
  qed
  with buildReport_message [of net ord] show ?thesis by blast
qed

theorem buildReport_by_iteration_order_witness:
  "validOrders exampleNet orderNorthFirst \<and> validOrders exampleNet orderSouthFirst \<and>
   locationOrder orderSouthFirst = locationOrder orderNorthFirst \<and>
   mset (map (sourceBlock exampleNet (locationOrder orderSouthFirst)) (sourceOrder orderSouthFirst)) =
   mset (map (sourceBlock exampleNet (locationOrder orderNorthFirst)) (sourceOrder orderNorthFirst))"
proof -
  have l: "locationOrder orderSouthFirst = locationOrder orderNorthFirst"
    by (simp add: orderSouthFirst_def orderNorthFirst_def)
  from buildReport_by_iteration_order [of exampleNet orderNorthFirst orderSouthFirst]
    valid_north valid_south l
  show ?thesis by blast
qed

theorem buildReport_order_counterexample:
  "validOrders exampleNet orderNorthFirst \<and> validOrders exampleNet orderSouthFirst \<and>
   fst (buildReport exampleNet orderNorthFirst) \<noteq> fst (buildReport exampleNet orderSouthFirst)"
  by (simp add: valid_north valid_south report_north report_south sourceHeader_def
        mienTrung_def mienNam_def)

text \<open>
  C6. A run sends exactly one POST, that of \<^verbatim>\<open>sendToTelegram\<close>, carrying the message
  it built; when every source fails to fetch or has no item, the message is the fixed
  header alone.
\<close>

theorem runJob_notifies_once:
  "filter isPost (runJob cfg net ord) =
     [HttpPost (telegramURL cfg) ''application/x-www-form-urlencoded''
        (telegramPayload cfg (fst (buildReport net ord)))] \<and>
   ((\<forall>region url. rssURLs region = Some url \<longrightarrow>
       (case fetchRSS net url of Inl err \<Rightarrow> True | Inr rss \<Rightarrow> Items (Channel rss) = [])) \<longrightarrow>
    fst (buildReport net ord) = messageHeader)"
proof -
  have "fst (buildReport net ord) = messageHeader"
    if a: "\<forall>region url. rssURLs region = Some url \<longrightarrow>
       (case fetchRSS net url of Inl err \<Rightarrow> True | Inr rss \<Rightarrow> Items (Channel rss) = [])"
  proof -
    have "sourceItem net region = None" for region
    proof (cases "rssURLs region")
      case None
      then show ?thesis by (simp add: sourceItem_def)
    next
      case (Some url)
      with a show ?thesis by (auto intro: sourceItem_None)
    qed
    then have "sourceBlock net (locationOrder ord) region = []" for region
      by (simp add: sourceBlock_def)
    then show ?thesis by (simp add: buildReport_message)
  qed
  with runJob_posts [of cfg net ord] show ?thesis by blast
qed

theorem runJob_notifies_once_witness:
  "fetchRSS deadNet ''https://xosodaiphat.com/ket-qua-xo-so-mien-bac-xsmb.rss'' =
     Inl (Error ''no route to host'') \<and>
   filter isPost (runJob exampleConfig deadNet orderNorthFirst) =
     [HttpPost ''https://api.telegram.org/botT/sendMessage''
        ''application/x-www-form-urlencoded'' (''chat_id=42&text='' @ messageHeader)]"
proof -
  have h: "\<forall>region url. rssURLs region = Some url \<longrightarrow>
       (case fetchRSS deadNet url of Inl err \<Rightarrow> True | Inr rss \<Rightarrow> Items (Channel rss) = [])"
    by (simp add: deadNet_fetch)
  from runJob_notifies_once [of exampleConfig deadNet orderNorthFirst] h
  have "filter isPost (runJob exampleConfig deadNet orderNorthFirst) =
     [HttpPost (telegramURL exampleConfig) ''application/x-www-form-urlencoded''
        (telegramPayload exampleConfig messageHeader)]"
    by simp
  then show ?thesis
    by (simp add: deadNet_fetch telegramURL_def telegramPayload_def exampleConfig_def)
qed



section \<open>Delivery\<close>

text \<open>
  C8. The body of the POST is \<^verbatim>\<open>chat_id=\<close>, the chat identifier, \<^verbatim>\<open>&text=\<close> and the
  message as it is, not escaped. In a run whose only feed has a first item titled
  \<^verbatim>\<open>A&B\<close>, the receiver of the body finds three fields, and the text field ends
  before the \<^verbatim>\<open>&\<close> of the title.
\<close>

theorem sendToTelegram_unescaped:
  "validOrders ampersandNet orderNorthFirst \<and>
   filter isPost (runJob exampleConfig ampersandNet orderNorthFirst) =
     [HttpPost ''https://api.telegram.org/botT/sendMessage''
        ''application/x-www-form-urlencoded''
        (''chat_id=42&text='' @ messageHeader @ sourceHeader mienNam ''A&B'' @
           ''[A]'' @ nl @ ''G.1: 7'' @ nl @ nl)] \<and>
   formFields (''chat_id=42&text='' @ messageHeader @ sourceHeader mienNam ''A&B'' @
        ''[A]'' @ nl @ ''G.1: 7'' @ nl @ nl) =
     [(''chat_id'', ''42''),
      (''text'', messageHeader @ [CHR 0xF0, CHR 0x9F, CHR 0x93, CHR 0xA2, CHR 0x20] @ mienNam @ '' - A''),
      (''B'' @ nl @ ''[A]'' @ nl @ ''G.1: 7'' @ nl @ nl, [])]"
proof -
  have "filter isPost (runJob exampleConfig ampersandNet orderNorthFirst) =
     [HttpPost ''https://api.telegram.org/botT/sendMessage''
        ''application/x-www-form-urlencoded''
        (''chat_id=42&text='' @ messageHeader @ sourceHeader mienNam ''A&B'' @
           ''[A]'' @ nl @ ''G.1: 7'' @ nl @ nl)]"
    by (simp add: runJob_posts ampersandNet_report telegramURL_def telegramPayload_def
          exampleConfig_def)
  moreover have "formFields (''chat_id=42&text='' @ messageHeader @ sourceHeader mienNam ''A&B'' @
        ''[A]'' @ nl @ ''G.1: 7'' @ nl @ nl) =
     [(''chat_id'', ''42''),
      (''text'', messageHeader @ [CHR 0xF0, CHR 0x9F, CHR 0x93, CHR 0xA2, CHR 0x20] @ mienNam @ '' - A''),
      (''B'' @ nl @ ''[A]'' @ nl @ ''G.1: 7'' @ nl @ nl, [])]"
    by (simp add: formFields_def Split_def messageHeader_def sourceHeader_def mienNam_def nl_def)
  ultimately show ?thesis using ampersandNet_valid by blast
qed

text \<open>
  C10. Whenever the POST is answered, whatever the status code, \<^verbatim>\<open>sendToTelegram\<close>
  returns \<^verbatim>\<open>nil\<close>; it returns an error only when the request itself fails, and then
  that error.
\<close>

theorem sendToTelegram_ignores_status:
  "(http_Post net (telegramURL cfg) ''application/x-www-form-urlencoded''
        (telegramPayload cfg message) = Inr resp \<longrightarrow>
      fst (sendToTelegram cfg net message calls) = None) \<and>
   (http_Post net (telegramURL cfg) ''application/x-www-form-urlencoded''
        (telegramPayload cfg message) = Inl err \<longrightarrow>
      fst (sendToTelegram cfg net message calls) = Some err)"
  by (simp add: sendToTelegram_def Let_def)

theorem sendToTelegram_ignores_status_witness:
  "http_Post exampleNet (telegramURL exampleConfig) ''application/x-www-form-urlencoded''
      (telegramPayload exampleConfig ''report'') = Inr \<lparr>StatusCode = 403, Body = Inr []\<rparr> \<and>
   fst (sendToTelegram exampleConfig exampleNet ''report'' []) = None"
proof -
  have h: "http_Post exampleNet (telegramURL exampleConfig) ''application/x-www-form-urlencoded''
      (telegramPayload exampleConfig ''report'') = Inr \<lparr>StatusCode = 403, Body = Inr []\<rparr>"
    by (simp add: exampleNet_def)
  with sendToTelegram_ignores_status
    [of exampleNet exampleConfig "''report''" "\<lparr>StatusCode = 403, Body = Inr []\<rparr>" "[]"]
  show ?thesis by blast
qed

end
